theory Spec2Isabelle
  imports Main
begin

section \<open>Python values\<close>

text \<open>
  A Python \<open>str\<close> is a sequence of Unicode code points and \<open>len\<close> counts code points, so
  text is a list of code points. Literals of the source are written with \<open>ascii\<close>.
  Metadata values are the scalars a vector store keeps (\<open>None\<close>, \<open>bool\<close>, \<open>int\<close>,
  \<open>str\<close>); floats are left out. Keys of the metadata dictionaries are the ASCII
  identifiers the source writes, kept as HOL strings.
\<close>

type_synonym pystr = "nat list"

definition ascii :: "string \<Rightarrow> pystr" where
  "ascii s = map of_char s"

datatype pyval = PNone | PBool bool | PInt int | PStr pystr

text \<open>Truth value of a scalar, as \<open>if x\<close> and \<open>x or y\<close> test it.\<close>

fun truthy :: "pyval \<Rightarrow> bool" where
  "truthy PNone = False"
| "truthy (PBool b) = b"
| "truthy (PInt i) = (i \<noteq> 0)"
| "truthy (PStr s) = (s \<noteq> [])"

text \<open>\<open>str(n)\<close> for an integer: decimal digits, with a leading minus sign.\<close>

fun str_nat :: "nat \<Rightarrow> pystr" where
  "str_nat n = (if n < 10 then [48 + n] else str_nat (n div 10) @ [48 + n mod 10])"

declare str_nat.simps [simp del]

definition str_int :: "int \<Rightarrow> pystr" where
  "str_int i = (if i < 0 then 45 # str_nat (nat (- i)) else str_nat (nat i))"

text \<open>What an f-string writes for \<open>{v}\<close>.\<close>

fun py_str :: "pyval \<Rightarrow> pystr" where
  "py_str PNone = ascii ''None''"
| "py_str (PBool b) = (if b then ascii ''True'' else ascii ''False'')"
| "py_str (PInt i) = str_int i"
| "py_str (PStr s) = s"

text \<open>The code points \<open>str.strip()\<close> removes and \<open>str.isspace()\<close> accepts.\<close>

definition py_isspace :: "nat \<Rightarrow> bool" where
  "py_isspace c \<longleftrightarrow>
     (9 \<le> c \<and> c \<le> 13) \<or> (28 \<le> c \<and> c \<le> 32) \<or> c = 133 \<or> c = 160 \<or> c = 5760
     \<or> (8192 \<le> c \<and> c \<le> 8202) \<or> c = 8232 \<or> c = 8233 \<or> c = 8239 \<or> c = 8287
     \<or> c = 12288"

definition py_strip :: "pystr \<Rightarrow> pystr" where
  "py_strip s = rev (dropWhile py_isspace (rev (dropWhile py_isspace s)))"

text \<open>\<open>s.split(sep)\<close> for a one-character separator: one more piece than separators.\<close>

fun py_split :: "nat \<Rightarrow> pystr \<Rightarrow> pystr list" where
  "py_split sep [] = [[]]"
| "py_split sep (c # cs) =
     (if c = sep then [] # py_split sep cs
      else (case py_split sep cs of [] \<Rightarrow> [[c]] | w # ws \<Rightarrow> (c # w) # ws))"

text \<open>\<open>sep.join(parts)\<close>.\<close>

fun py_join :: "pystr \<Rightarrow> pystr list \<Rightarrow> pystr" where
  "py_join sep [] = []"
| "py_join sep [p] = p"
| "py_join sep (p # q # ps) = p @ sep @ py_join sep (q # ps)"

section \<open>Documents and citations (app/utils/citations.py)\<close>

record Document =
  page_content :: pystr
  metadata :: "string \<rightharpoonup> pyval"

text \<open>\<open>meta.get(key)\<close> and \<open>meta.get(key, default)\<close>.\<close>

definition dict_get :: "(string \<rightharpoonup> pyval) \<Rightarrow> string \<Rightarrow> pyval" where
  "dict_get m k = (case m k of None \<Rightarrow> PNone | Some v \<Rightarrow> v)"

definition dict_get_default :: "(string \<rightharpoonup> pyval) \<Rightarrow> string \<Rightarrow> pyval \<Rightarrow> pyval" where
  "dict_get_default m k dflt = (case m k of None \<Rightarrow> dflt | Some v \<Rightarrow> v)"

record Citation =
  source :: pyval
  page :: pyval
  chunk_id :: pyval
  snippet :: pystr

text \<open>The entries of \<open>unique_sources\<close>: a citation with the temporary \<open>content\<close> field.\<close>

record entry = Citation +
  content :: pystr

text \<open>
  \<open>unique_sources\<close> is a Python dict, which keeps its keys in insertion order and leaves
  a key in place when its value is replaced: an association list.
\<close>

fun dict_contains :: "('k \<times> 'v) list \<Rightarrow> 'k \<Rightarrow> bool" where
  "dict_contains [] k = False"
| "dict_contains ((k', v) # us) k = (k' = k \<or> dict_contains us k)"

fun dict_lookup :: "('k \<times> 'v) list \<Rightarrow> 'k \<Rightarrow> 'v option" where
  "dict_lookup [] k = None"
| "dict_lookup ((k', v) # us) k = (if k' = k then Some v else dict_lookup us k)"

fun dict_set :: "('k \<times> 'v) list \<Rightarrow> 'k \<Rightarrow> 'v \<Rightarrow> ('k \<times> 'v) list" where
  "dict_set [] k v = [(k, v)]"
| "dict_set ((k', v') # us) k v =
     (if k' = k then (k, v) # us else (k', v') # dict_set us k v)"

definition source_key :: "Document \<Rightarrow> pystr" where
  "source_key d =
     py_str (dict_get (metadata d) ''source'') @ ascii '':''
       @ py_str (dict_get_default (metadata d) ''page'' (PStr (ascii ''none'')))"

definition make_snippet :: "pystr \<Rightarrow> pystr" where
  "make_snippet c = (if length c > 240 then take 240 c @ [8230] else c)"

definition make_entry :: "Document \<Rightarrow> entry" where
  "make_entry d =
     \<lparr>source = dict_get (metadata d) ''source'',
      page = dict_get (metadata d) ''page'',
      chunk_id = dict_get (metadata d) ''chunk_id'',
      snippet = make_snippet (page_content d),
      content = page_content d\<rparr>"

text \<open>One iteration of the first loop of \<open>build_citations\<close>.\<close>

definition collect_step :: "(pystr \<times> entry) list \<Rightarrow> Document \<Rightarrow> (pystr \<times> entry) list" where
  "collect_step unique_sources d =
     (if \<not> truthy (dict_get (metadata d) ''source'') then unique_sources
      else if \<not> dict_contains unique_sources (source_key d)
              \<or> (case dict_lookup unique_sources (source_key d) of
                    None \<Rightarrow> False
                  | Some e \<Rightarrow> length (page_content d) > length (content e))
           then dict_set unique_sources (source_key d) (make_entry d)
           else unique_sources)"

fun collect :: "(pystr \<times> entry) list \<Rightarrow> Document list \<Rightarrow> (pystr \<times> entry) list" where
  "collect unique_sources [] = unique_sources"
| "collect unique_sources (d # ds) = collect (collect_step unique_sources d) ds"

text \<open>The second loop: \<open>del citation["content"]\<close>.\<close>

definition del_content :: "entry \<Rightarrow> Citation" where
  "del_content e =
     \<lparr>source = source e, page = page e, chunk_id = chunk_id e, snippet = snippet e\<rparr>"

definition build_citations :: "Document list \<Rightarrow> Citation list" where
  "build_citations docs = map (del_content \<circ> snd) (collect [] docs)"

section \<open>The RAG pipeline (app/chains.py)\<close>

datatype message = SystemMessage pystr | HumanMessage pystr | AIMessage pystr

fun msg_content :: "message \<Rightarrow> pystr" where
  "msg_content (SystemMessage t) = t"
| "msg_content (HumanMessage t) = t"
| "msg_content (AIMessage t) = t"

text \<open>\<open>msg.type.upper()\<close>.\<close>

fun msg_type_upper :: "message \<Rightarrow> pystr" where
  "msg_type_upper (SystemMessage t) = ascii ''SYSTEM''"
| "msg_type_upper (HumanMessage t) = ascii ''HUMAN''"
| "msg_type_upper (AIMessage t) = ascii ''AI''"

text \<open>The dictionary \<open>answer_question\<close> returns.\<close>

record chat_result =
  answer :: pystr
  citations :: "Citation list"

text \<open>
  The vector store and the language model are external services. Each is a function of
  the arguments the source passes to it and either raises (\<open>Inl\<close>, carrying \<open>str(e)\<close>) or
  returns. Every invocation is recorded in the state, so that a request that does not
  reach a service leaves the record as it was. \<open>json_response\<close> is the web framework's
  \<open>JSONResponse(result)\<close>: it renders the body or raises (a string that cannot be encoded).
\<close>

type_synonym exn = pystr

datatype call =
  SimilaritySearch pystr int "pystr list option"
| LLMInvoke "message list"

record services =
  similarity_search :: "pystr \<Rightarrow> int \<Rightarrow> pystr list option \<Rightarrow> exn + Document list"
  llm_invoke :: "message list \<Rightarrow> exn + pystr"
  json_response :: "chat_result \<Rightarrow> exn + pystr"
  SYSTEM_PROMPT :: pystr
  max_context_docs :: int

record state =
  SESSION_STORE :: "pystr \<rightharpoonup> message list"
  calls :: "call list"

definition get_history :: "pystr \<Rightarrow> state \<Rightarrow> message list \<times> state" where
  "get_history session_id st =
     (case SESSION_STORE st session_id of
        None \<Rightarrow> ([], st\<lparr>SESSION_STORE := (SESSION_STORE st)(session_id \<mapsto> [])\<rparr>)
      | Some h \<Rightarrow> (h, st))"

text \<open>
  \<open>if filter_docs:\<close> is false for \<open>None\<close> and for the empty list; the filter
  \<open>{"source": {"$in": filter_docs}}\<close> is passed as \<open>Some filter_docs\<close>.
\<close>

definition retrieve_context ::
  "services \<Rightarrow> pystr \<Rightarrow> int \<Rightarrow> pystr list option \<Rightarrow> state \<Rightarrow> (exn + Document list) \<times> state" where
  "retrieve_context sv question k filter_docs st =
     (case filter_docs of
        Some (f # fs) \<Rightarrow>
          (similarity_search sv question k (Some (f # fs)),
           st\<lparr>calls := calls st @ [SimilaritySearch question k (Some (f # fs))]\<rparr>)
      | _ \<Rightarrow>
          (similarity_search sv question k None,
           st\<lparr>calls := calls st @ [SimilaritySearch question k None]\<rparr>))"

definition context_part :: "Document \<Rightarrow> pystr" where
  "context_part d =
     ascii ''[Source: '' @ py_str (dict_get_default (metadata d) ''source'' (PStr (ascii ''Unknown'')))
       @ ascii '', Page: '' @ py_str (dict_get_default (metadata d) ''page'' (PStr (ascii ''?'')))
       @ ascii '']'' @ [10] @ page_content d"

definition history_line :: "message \<Rightarrow> pystr" where
  "history_line m = msg_type_upper m @ ascii '': '' @ msg_content m"

definition format_messages :: "pystr \<Rightarrow> pystr \<Rightarrow> pystr \<Rightarrow> pystr \<Rightarrow> message list" where
  "format_messages system_prompt context_text question history_text =
     [SystemMessage system_prompt,
      HumanMessage (ascii ''Context:'' @ [10] @ context_text @ [10, 10]
        @ ascii ''Question: '' @ question @ [10, 10]
        @ ascii ''Chat history (may help):'' @ [10] @ history_text)]"

definition answer_question ::
  "services \<Rightarrow> pystr \<Rightarrow> pystr \<Rightarrow> int \<Rightarrow> pystr list option \<Rightarrow> state \<Rightarrow> (exn + chat_result) \<times> state" where
  "answer_question sv question session_id k filter_docs st =
     (case retrieve_context sv question k filter_docs st of
        (Inl e, st1) \<Rightarrow> (Inl e, st1)
      | (Inr docs, st1) \<Rightarrow>
          (let context_text = py_join ([10, 10] @ ascii ''---'' @ [10, 10]) (map context_part docs);
               (history, st2) = get_history session_id st1;
               recent_messages = drop (length history - 6) history;
               history_text = py_join [10] (map history_line recent_messages);
               msg = format_messages (SYSTEM_PROMPT sv) context_text question history_text;
               st3 = st2\<lparr>calls := calls st2 @ [LLMInvoke msg]\<rparr>
           in case llm_invoke sv msg of
                Inl e \<Rightarrow> (Inl e, st3)
              | Inr response \<Rightarrow>
                  (Inr \<lparr>answer = response, citations = build_citations docs\<rparr>,
                   st3\<lparr>SESSION_STORE := (SESSION_STORE st3)(session_id \<mapsto>
                          history @ [HumanMessage question, AIMessage response])\<rparr>)))"

section \<open>The chat endpoint (app/main.py)\<close>

datatype http_exception = HTTPException nat pystr

text \<open>Lines 322 to 325 of \<open>chat\<close>: the parsed \<open>documents\<close> form field.\<close>

definition parse_documents :: "pystr option \<Rightarrow> pystr list option" where
  "parse_documents documents =
     (case documents of
        None \<Rightarrow> None
      | Some ds \<Rightarrow>
          if ds \<noteq> [] \<and> py_strip ds \<noteq> []
          then Some (map py_strip (filter (\<lambda>doc. py_strip doc \<noteq> []) (py_split 44 ds)))
          else None)"

text \<open>
  \<open>chat\<close> raises the 400 before its \<open>try\<close>. Inside the \<open>try\<close> it calls \<open>answer_question\<close>
  and renders the result with \<open>JSONResponse\<close>; an exception of either is answered with
  status 500, the state being what it was when the exception was raised.
\<close>

text \<open>\<open>k or settings.max_context_docs\<close>: an omitted \<open>k\<close> and \<open>k = 0\<close> are both false.\<close>

definition top_k :: "services \<Rightarrow> int option \<Rightarrow> int" where
  "top_k sv k =
     (case k of None \<Rightarrow> max_context_docs sv
      | Some n \<Rightarrow> if n \<noteq> 0 then n else max_context_docs sv)"

definition chat ::
  "services \<Rightarrow> pystr \<Rightarrow> pystr \<Rightarrow> int option \<Rightarrow> pystr option \<Rightarrow> state
     \<Rightarrow> (http_exception + chat_result) \<times> state" where
  "chat sv question session_id k documents st =
     (if question = [] \<or> py_strip question = []
      then (Inl (HTTPException 400 (ascii ''Question cannot be empty'')), st)
      else
        (let filter_docs = parse_documents documents
         in case answer_question sv question session_id (top_k sv k) filter_docs st of
              (Inl e, st') \<Rightarrow> (Inl (HTTPException 500 (ascii ''Chat failed: '' @ e)), st')
            | (Inr result, st') \<Rightarrow>
                (case json_response sv result of
                   Inl e \<Rightarrow> (Inl (HTTPException 500 (ascii ''Chat failed: '' @ e)), st')
                 | Inr body \<Rightarrow> (Inr result, st'))))"

section \<open>Loading files (app/utils/loaders.py)\<close>

text \<open>
  \<open>load_file\<close> reads three attributes of its \<open>Path\<close>: \<open>str(path)\<close>, \<open>path.name\<close> and
  \<open>path.suffix\<close>. The langchain loaders and \<open>str.lower\<close> belong to libraries; they are
  parameters. A loader either raises or returns its documents.
\<close>

record path =
  path_str :: pystr
  name :: pystr
  suffix :: pystr

datatype loader =
  PyPDFLoader | Docx2txtLoader | UnstructuredMarkdownLoader | UnstructuredHTMLLoader
| CSVLoader | TextLoader

record library =
  lower :: "pystr \<Rightarrow> pystr"
  load :: "loader \<Rightarrow> pystr \<Rightarrow> exn + Document list"

definition choose_loader :: "pystr \<Rightarrow> loader" where
  "choose_loader sfx =
     (if sfx = ascii ''.pdf'' then PyPDFLoader
      else if sfx = ascii ''.docx'' \<or> sfx = ascii ''.doc'' then Docx2txtLoader
      else if sfx = ascii ''.md'' then UnstructuredMarkdownLoader
      else if sfx = ascii ''.htm'' \<or> sfx = ascii ''.html'' then UnstructuredHTMLLoader
      else if sfx = ascii ''.csv'' then CSVLoader
      else TextLoader)"

text \<open>\<open>base_metadata = metadata or {}\<close> followed by \<open>base_metadata.update({...})\<close>.\<close>

definition base_metadata :: "library \<Rightarrow> path \<Rightarrow> (string \<rightharpoonup> pyval) option \<Rightarrow> (string \<rightharpoonup> pyval)" where
  "base_metadata lib p md =
     (case md of None \<Rightarrow> Map.empty | Some m \<Rightarrow> m)
       (''filename'' \<mapsto> PStr (name p), ''file_type'' \<mapsto> PStr (lower lib (suffix p)))"

text \<open>The body of the loop over \<open>enumerate(docs)\<close>; \<open>m ++ m'\<close> is \<open>m.update(m')\<close>.\<close>

definition enrich :: "(string \<rightharpoonup> pyval) \<Rightarrow> path \<Rightarrow> nat \<Rightarrow> Document \<Rightarrow> Document" where
  "enrich base p i d =
     (let enriched_metadata = (base ++ metadata d)(''chunk_id'' \<mapsto> PInt (int i))
      in d\<lparr>metadata :=
            (case enriched_metadata ''original_filename'' of
               None \<Rightarrow> enriched_metadata(''source'' \<mapsto> PStr (name p))
             | Some orig \<Rightarrow> enriched_metadata(''source'' \<mapsto> orig))\<rparr>)"

text \<open>
  The result of \<open>load_file\<close>, and the caller's dictionary after the call: a non-empty
  dictionary passed in is the object \<open>base_metadata\<close> names and is updated in place.
\<close>

definition load_file ::
  "library \<Rightarrow> path \<Rightarrow> (string \<rightharpoonup> pyval) option
     \<Rightarrow> (exn + Document list) \<times> (string \<rightharpoonup> pyval) option" where
  "load_file lib p md =
     (let base = base_metadata lib p md;
          md' = (case md of None \<Rightarrow> None
                 | Some m \<Rightarrow> if m = Map.empty then Some m else Some base)
      in case load lib (choose_loader (lower lib (suffix p))) (path_str p) of
           Inl e \<Rightarrow> (Inl e, md')
         | Inr docs \<Rightarrow> (Inr (map (\<lambda>(i, d). enrich base p i d) (enumerate 0 docs)), md'))"

text \<open>
  \<open>split_docs\<close> builds the library's \<open>RecursiveCharacterTextSplitter\<close> with the two sizes
  and returns what its \<open>split_documents\<close> returns; the splitter is a parameter.
\<close>

definition split_docs ::
  "(int \<Rightarrow> int \<Rightarrow> Document list \<Rightarrow> exn + Document list)
     \<Rightarrow> Document list \<Rightarrow> int \<Rightarrow> int \<Rightarrow> exn + Document list" where
  "split_docs split_documents docs chunk_size chunk_overlap =
     split_documents chunk_size chunk_overlap docs"

section \<open>Notions the properties are stated with\<close>

text \<open>The messages a session holds; a session that does not exist holds none.\<close>

definition session_messages :: "state \<Rightarrow> pystr \<Rightarrow> message list" where
  "session_messages st session_id =
     (case SESSION_STORE st session_id of None \<Rightarrow> [] | Some h \<Rightarrow> h)"

text \<open>
  The prompt \<open>answer_question\<close> sends to the language model, from the retrieved chunks,
  the question and the messages of the session.
\<close>

definition prompt_for :: "services \<Rightarrow> Document list \<Rightarrow> pystr \<Rightarrow> message list \<Rightarrow> message list" where
  "prompt_for sv docs question history =
     format_messages (SYSTEM_PROMPT sv)
       (py_join ([10, 10] @ ascii ''---'' @ [10, 10]) (map context_part docs))
       question
       (py_join [10] (map history_line (drop (length history - 6) history)))"

text \<open>
  The document filter as the specification words it: split on commas, trim each entry,
  drop the empty entries; an absent field has no entries.
\<close>

definition document_filter :: "pystr option \<Rightarrow> pystr list" where
  "document_filter documents =
     (case documents of
        None \<Rightarrow> []
      | Some ds \<Rightarrow> filter (\<lambda>s. s \<noteq> []) (map py_strip (py_split 44 ds)))"

text \<open>
  The contract the vector store is used under: a search restricted to a set of file names
  returns only chunks whose \<open>source\<close> is one of them.
\<close>

definition honours_filter :: "services \<Rightarrow> bool" where
  "honours_filter sv \<longleftrightarrow>
     (\<forall>q k names docs. similarity_search sv q k (Some names) = Inr docs \<longrightarrow>
        (\<forall>d \<in> set docs. \<exists>s \<in> set names. metadata d ''source'' = Some (PStr s)))"

text \<open>The chunks \<open>build_citations\<close> does not skip, and the citation built from a chunk.\<close>

definition has_source :: "Document \<Rightarrow> bool" where
  "has_source d = truthy (dict_get (metadata d) ''source'')"

definition cited :: "Document list \<Rightarrow> Document list" where
  "cited docs = filter has_source docs"

definition cite :: "Document \<Rightarrow> Citation" where
  "cite d =
     \<lparr>source = dict_get (metadata d) ''source'',
      page = dict_get (metadata d) ''page'',
      chunk_id = dict_get (metadata d) ''chunk_id'',
      snippet = make_snippet (page_content d)\<rparr>"

text \<open>The (source, page) pair of a chunk and of a citation, as Python reads them.\<close>

definition pair_of :: "Document \<Rightarrow> pyval \<times> pyval" where
  "pair_of d = (dict_get (metadata d) ''source'', dict_get (metadata d) ''page'')"

definition citation_pair :: "Citation \<Rightarrow> pyval \<times> pyval" where
  "citation_pair c = (source c, page c)"

text \<open>The distinct elements of a list, each at its first occurrence.\<close>

fun first_seen :: "'a list \<Rightarrow> 'a list" where
  "first_seen [] = []"
| "first_seen (x # xs) = x # filter (\<lambda>y. y \<noteq> x) (first_seen xs)"

text \<open>
  \<open>first_longest w g\<close>: \<open>w\<close> is the chunk of \<open>g\<close> with the longest content, the first of
  them when several are as long.
\<close>

definition first_longest :: "Document \<Rightarrow> Document list \<Rightarrow> bool" where
  "first_longest w g \<longleftrightarrow>
     (\<exists>i < length g. g ! i = w
        \<and> (\<forall>j < length g. length (page_content (g ! j)) \<le> length (page_content w))
        \<and> (\<forall>j < i. length (page_content (g ! j)) < length (page_content w)))"

text \<open>
  Metadata as the loaders of this program write it: \<open>source\<close> is a string and \<open>page\<close>
  an integer, when present.
\<close>

definition typed_meta :: "Document \<Rightarrow> bool" where
  "typed_meta d \<longleftrightarrow>
     (case metadata d ''source'' of None \<Rightarrow> True | Some v \<Rightarrow> (\<exists>s. v = PStr s))
     \<and> (case metadata d ''page'' of None \<Rightarrow> True | Some v \<Rightarrow> (\<exists>i. v = PInt i))"

section \<open>Auxiliary functions of the proofs\<close>

text \<open>
  The state of the first loop of \<open>build_citations\<close> after a prefix of the chunks, key by
  key: \<open>slot docs k\<close> is the chunk that holds key \<open>k\<close>, \<open>keys_of docs\<close> the keys in
  the order of the dictionary, \<open>summary docs\<close> the dictionary itself.
\<close>

definition upd_best :: "Document option \<Rightarrow> Document \<Rightarrow> Document option" where
  "upd_best acc d =
     (case acc of None \<Rightarrow> Some d
      | Some w \<Rightarrow> if length (page_content d) > length (page_content w) then Some d else Some w)"

definition best :: "Document list \<Rightarrow> Document option" where
  "best g = foldl upd_best None g"

definition slot :: "Document list \<Rightarrow> pystr \<Rightarrow> Document option" where
  "slot docs k = best (filter (\<lambda>d. source_key d = k) (cited docs))"

definition keys_of :: "Document list \<Rightarrow> pystr list" where
  "keys_of docs = first_seen (map source_key (cited docs))"

definition summary :: "Document list \<Rightarrow> (pystr \<times> entry) list" where
  "summary docs = map (\<lambda>k. (k, make_entry (the (slot docs k)))) (keys_of docs)"

text \<open>
  The number a string of decimal digits writes, and the key of a (source, page) pair
  whose source is a string and whose page is an integer or missing.
\<close>

definition digits_value :: "pystr \<Rightarrow> nat" where
  "digits_value ds = foldl (\<lambda>a c. 10 * a + (c - 48)) 0 ds"

definition key_of_pair :: "pyval \<times> pyval \<Rightarrow> pystr" where
  "key_of_pair p =
     py_str (fst p) @ ascii '':'' @ (case snd p of PNone \<Rightarrow> ascii ''none'' | v \<Rightarrow> py_str v)"

definition typed_pair :: "pyval \<times> pyval \<Rightarrow> bool" where
  "typed_pair p \<longleftrightarrow> (\<exists>s. fst p = PStr s) \<and> (snd p = PNone \<or> (\<exists>i. snd p = PInt i))"

section \<open>Concrete inputs\<close>

definition doc :: "string \<Rightarrow> (string \<times> pyval) list \<Rightarrow> Document" where
  "doc text kvs = \<lparr>page_content = ascii text, metadata = map_of kvs\<rparr>"

definition store0 :: "Document list" where
  "store0 =
     [doc ''alpha'' [(''source'', PStr (ascii ''A.pdf'')), (''page'', PInt 0)],
      doc ''beta'' [(''source'', PStr (ascii ''B.txt''))],
      doc ''alphabet'' [(''source'', PStr (ascii ''A.pdf'')), (''page'', PInt 0)]]"

definition search0 :: "pystr \<Rightarrow> int \<Rightarrow> pystr list option \<Rightarrow> exn + Document list" where
  "search0 q k flt =
     Inr (take (nat k)
       (case flt of
          None \<Rightarrow> store0
        | Some names \<Rightarrow>
            filter (\<lambda>d. \<exists>s \<in> set names. metadata d ''source'' = Some (PStr s)) store0))"

definition services0 :: services where
  "services0 =
     \<lparr>similarity_search = search0,
      llm_invoke = (\<lambda>msg. Inr (ascii ''fine'')),
      json_response = (\<lambda>result. Inr (answer result)),
      SYSTEM_PROMPT = ascii ''You are Duc'',
      max_context_docs = 6\<rparr>"

definition services_llm_down :: services where
  "services_llm_down = services0\<lparr>llm_invoke := (\<lambda>msg. Inl (ascii ''rate limit''))\<rparr>"

definition services_db_down :: services where
  "services_db_down = services0\<lparr>similarity_search := (\<lambda>q k flt. Inl (ascii ''connection refused''))\<rparr>"

definition state0 :: state where
  "state0 = \<lparr>SESSION_STORE = Map.empty, calls = []\<rparr>"

definition docs_mixed :: "Document list" where
  "docs_mixed =
     [doc ''x'' [(''source'', PStr (ascii ''a'')), (''page'', PInt 1)],
      doc ''y'' [(''source'', PStr (ascii ''b''))],
      doc ''xxx'' [(''source'', PStr (ascii ''a'')), (''page'', PStr (ascii ''1''))]]"

definition long_doc :: Document where
  "long_doc = \<lparr>page_content = replicate 300 120, metadata = map_of [(''source'', PStr (ascii ''L.txt''))]\<rparr>"

definition lib0 :: library where
  "lib0 =
     \<lparr>lower = (\<lambda>s. s),
      load = (\<lambda>l ps. Inr [doc ''page one'' [(''source'', PStr ps), (''page'', PInt 0)],
                         doc ''page two'' [(''source'', PStr ps), (''page'', PInt 1),
                                           (''filename'', PStr (ascii ''inner.pdf''))]])\<rparr>"

definition path0 :: path where
  "path0 = \<lparr>path_str = ascii ''/tmp/tmpab12.pdf'', name = ascii ''tmpab12.pdf'', suffix = ascii ''.pdf''\<rparr>"

definition upload_metadata0 :: "string \<rightharpoonup> pyval" where
  "upload_metadata0 = map_of [(''original_filename'', PStr (ascii ''report.pdf'')), (''file_size'', PInt 2048)]"

section \<open>Strings\<close>

lemma py_strip_Nil [simp]: "py_strip [] = []"
  by (simp add: py_strip_def)

lemma py_strip_eq_Nil: "py_strip s = [] \<longleftrightarrow> (\<forall>c \<in> set s. py_isspace c)"
proof
  assume "py_strip s = []"
  then have "\<forall>c \<in> set (dropWhile py_isspace s). py_isspace c"
    by (simp add: py_strip_def dropWhile_eq_Nil_conv)
  then have "dropWhile py_isspace s = []"
    by (metis hd_dropWhile list.set_sel(1))
  then show "\<forall>c \<in> set s. py_isspace c"
    by (simp add: dropWhile_eq_Nil_conv)
next
  assume "\<forall>c \<in> set s. py_isspace c"
  then have "dropWhile py_isspace s = []"
    by (simp add: dropWhile_eq_Nil_conv)
  then show "py_strip s = []"
    by (simp only: py_strip_def rev.simps dropWhile.simps)
qed

lemma py_split_no_sep: "sep \<notin> set s \<Longrightarrow> py_split sep s = [s]"
  by (induction s) auto

lemma hi_not_blank: "py_strip (ascii ''hi'') \<noteq> []"
  by (simp add: py_strip_def py_isspace_def ascii_def)

section \<open>Rejection of blank questions\<close>

text \<open>
  C7. A chat request whose question is empty or whitespace-only after trimming is
  rejected with status 400 and the state is returned as it was: no call to the vector
  store (and so to the embedding service) or to the language model is recorded, and the
  session store is untouched.
\<close>

theorem chat_blank_question_rejected:
  assumes "py_strip question = []"
  shows "chat sv question session_id k documents st
           = (Inl (HTTPException 400 (ascii ''Question cannot be empty'')), st)"
  using assms by (simp add: chat_def)

theorem chat_blank_question_rejected_witness:
  "py_strip [32, 9, 10] = []
   \<and> chat services0 [32, 9, 10] (ascii ''s1'') (Some 3) None state0
       = (Inl (HTTPException 400 (ascii ''Question cannot be empty'')), state0)"
proof -
  have h: "py_strip [32, 9, 10] = []"
    by (simp add: py_strip_def py_isspace_def)
  show ?thesis
    using h chat_blank_question_rejected [OF h, of services0 "ascii ''s1''" "Some 3" None state0]
    by simp
qed

section \<open>The pipeline and the session store\<close>

lemma retrieve_context_calls:
  "\<exists>flt. retrieve_context sv question k filter_docs st
     = (similarity_search sv question k flt, st\<lparr>calls := calls st @ [SimilaritySearch question k flt]\<rparr>)"
  by (auto simp: retrieve_context_def split: option.splits list.splits)

lemma retrieve_context_store:
  "SESSION_STORE (snd (retrieve_context sv question k filter_docs st)) = SESSION_STORE st"
  by (auto simp: retrieve_context_def split: option.splits list.splits)

lemma answer_question_calls:
  "\<exists>flt rest. calls (snd (answer_question sv question session_id k filter_docs st))
      = calls st @ SimilaritySearch question k flt # rest"
proof -
  obtain flt where r: "retrieve_context sv question k filter_docs st
     = (similarity_search sv question k flt, st\<lparr>calls := calls st @ [SimilaritySearch question k flt]\<rparr>)"
    using retrieve_context_calls by blast
  show ?thesis
    unfolding answer_question_def r
    by (auto simp: Let_def get_history_def split: sum.splits option.splits prod.splits)
qed

lemma answer_question_calls_after:
  "\<exists>rest. calls (snd (answer_question sv question session_id k filter_docs st))
      = calls (snd (retrieve_context sv question k filter_docs st)) @ rest"
proof -
  obtain flt where r: "retrieve_context sv question k filter_docs st
     = (similarity_search sv question k flt, st\<lparr>calls := calls st @ [SimilaritySearch question k flt]\<rparr>)"
    using retrieve_context_calls by blast
  show ?thesis
    unfolding answer_question_def r
    by (auto simp: Let_def get_history_def split: sum.splits option.splits prod.splits)
qed

lemma chat_state:
  "py_strip question \<noteq> [] \<Longrightarrow>
   snd (chat sv question session_id k documents st)
     = snd (answer_question sv question session_id (top_k sv k) (parse_documents documents) st)"
  by (auto simp: chat_def Let_def split: prod.splits sum.splits)

lemma chat_not_400:
  "py_strip question \<noteq> [] \<Longrightarrow>
   fst (chat sv question session_id k documents st) \<noteq> Inl (HTTPException 400 detail)"
  by (auto simp: chat_def Let_def split: prod.splits sum.splits)

text \<open>
  C6. \<open>answer_question\<close> by the outcome of its two service calls. When retrieval raises,
  it raises the same and the session store is as before. When retrieval returns and the
  generation call raises, it raises the same and every session holds the messages it held
  before. When both return, it returns the model's answer with the citations of the
  retrieved chunks, and the session holds its former messages followed by the user's
  question and then the model's answer; the prompt was built from the former messages, and
  the generation call is the last recorded call.
\<close>

theorem answer_question_history:
  "(case fst (retrieve_context sv question k filter_docs st) of
      Inl e \<Rightarrow>
        fst (answer_question sv question session_id k filter_docs st) = Inl e
        \<and> SESSION_STORE (snd (answer_question sv question session_id k filter_docs st))
            = SESSION_STORE st
    | Inr docs \<Rightarrow>
        (case llm_invoke sv (prompt_for sv docs question (session_messages st session_id)) of
           Inl e \<Rightarrow>
             fst (answer_question sv question session_id k filter_docs st) = Inl e
             \<and> session_messages (snd (answer_question sv question session_id k filter_docs st))
                 = session_messages st
         | Inr response \<Rightarrow>
             fst (answer_question sv question session_id k filter_docs st)
               = Inr \<lparr>answer = response, citations = build_citations docs\<rparr>
             \<and> SESSION_STORE (snd (answer_question sv question session_id k filter_docs st))
                 = (SESSION_STORE st)(session_id \<mapsto>
                      session_messages st session_id
                        @ [HumanMessage question, AIMessage response])
             \<and> last (calls (snd (answer_question sv question session_id k filter_docs st)))
                 = LLMInvoke (prompt_for sv docs question (session_messages st session_id))))"
proof -
  obtain flt where r: "retrieve_context sv question k filter_docs st
     = (similarity_search sv question k flt, st\<lparr>calls := calls st @ [SimilaritySearch question k flt]\<rparr>)"
    using retrieve_context_calls by blast
  show ?thesis
    unfolding answer_question_def r
    by (auto simp: Let_def get_history_def session_messages_def prompt_for_def fun_eq_iff
          split: sum.splits option.splits prod.splits)
qed

theorem answer_question_history_witness:
  "fst (answer_question services0 (ascii ''hi'') (ascii ''s1'') 6 None state0)
     = Inr \<lparr>answer = ascii ''fine'', citations = build_citations store0\<rparr>
   \<and> SESSION_STORE (snd (answer_question services0 (ascii ''hi'') (ascii ''s1'') 6 None state0))
     = [ascii ''s1'' \<mapsto> [HumanMessage (ascii ''hi''), AIMessage (ascii ''fine'')]]
   \<and> fst (answer_question services_llm_down (ascii ''hi'') (ascii ''s1'') 6 None state0)
     = Inl (ascii ''rate limit'')
   \<and> session_messages (snd (answer_question services_llm_down (ascii ''hi'') (ascii ''s1'') 6 None state0))
     = session_messages state0
   \<and> fst (answer_question services_db_down (ascii ''hi'') (ascii ''s1'') 6 None state0)
     = Inl (ascii ''connection refused'')
   \<and> SESSION_STORE (snd (answer_question services_db_down (ascii ''hi'') (ascii ''s1'') 6 None state0))
     = SESSION_STORE state0"
proof -
  have r0: "fst (retrieve_context services0 (ascii ''hi'') 6 None state0) = Inr store0"
    by (simp add: retrieve_context_def services0_def search0_def store0_def)
  have r1: "fst (retrieve_context services_llm_down (ascii ''hi'') 6 None state0) = Inr store0"
    by (simp add: retrieve_context_def services_llm_down_def services0_def search0_def store0_def)
  have r2: "fst (retrieve_context services_db_down (ascii ''hi'') 6 None state0)
     = Inl (ascii ''connection refused'')"
    by (simp add: retrieve_context_def services_db_down_def)
  have l0: "llm_invoke services0 msg = Inr (ascii ''fine'')" for msg
    by (simp add: services0_def)
  have l1: "llm_invoke services_llm_down msg = Inl (ascii ''rate limit'')" for msg
    by (simp add: services_llm_down_def)
  have m: "session_messages state0 (ascii ''s1'') = []" "SESSION_STORE state0 = Map.empty"
    by (simp_all add: session_messages_def state0_def)
  note a = answer_question_history [where sv = services0 and question = "ascii ''hi''"
      and session_id = "ascii ''s1''" and k = 6 and filter_docs = None and st = state0]
  note b = answer_question_history [where sv = services_llm_down and question = "ascii ''hi''"
      and session_id = "ascii ''s1''" and k = 6 and filter_docs = None and st = state0]
  note c = answer_question_history [where sv = services_db_down and question = "ascii ''hi''"
      and session_id = "ascii ''s1''" and k = 6 and filter_docs = None and st = state0]
  have a': "fst (answer_question services0 (ascii ''hi'') (ascii ''s1'') 6 None state0)
       = Inr \<lparr>answer = ascii ''fine'', citations = build_citations store0\<rparr>
     \<and> SESSION_STORE (snd (answer_question services0 (ascii ''hi'') (ascii ''s1'') 6 None state0))
       = [ascii ''s1'' \<mapsto> [HumanMessage (ascii ''hi''), AIMessage (ascii ''fine'')]]"
    using a by (simp add: r0 l0 m)
  have b': "fst (answer_question services_llm_down (ascii ''hi'') (ascii ''s1'') 6 None state0)
       = Inl (ascii ''rate limit'')
     \<and> session_messages (snd (answer_question services_llm_down (ascii ''hi'') (ascii ''s1'') 6 None state0))
       = session_messages state0"
    using b by (simp add: r1 l1)
  have c': "fst (answer_question services_db_down (ascii ''hi'') (ascii ''s1'') 6 None state0)
       = Inl (ascii ''connection refused'')
     \<and> SESSION_STORE (snd (answer_question services_db_down (ascii ''hi'') (ascii ''s1'') 6 None state0))
       = SESSION_STORE state0"
    using c by (simp add: r2)
  show ?thesis
    using a' b' c' by simp
qed

text \<open>
  C9. When \<open>k\<close> is omitted or is 0 and the question is not blank, the retrieval count
  is the configured \<open>max_context_docs\<close>: it is the count of the similarity search the
  request records. A request with \<open>k = 0\<close> behaves as the request without \<open>k\<close> and is
  not answered with status 400.
\<close>

theorem chat_zero_k_default:
  assumes "k = None \<or> k = Some 0" and "py_strip question \<noteq> []"
  shows "top_k sv k = max_context_docs sv
     \<and> (\<exists>flt rest. calls (snd (chat sv question session_id k documents st))
           = calls st @ SimilaritySearch question (max_context_docs sv) flt # rest)
     \<and> chat sv question session_id k documents st
           = chat sv question session_id None documents st
     \<and> (\<forall>detail. fst (chat sv question session_id k documents st)
           \<noteq> Inl (HTTPException 400 detail))"
proof -
  have t: "top_k sv k = max_context_docs sv"
    using assms(1) by (auto simp: top_k_def)
  have c: "\<exists>flt rest. calls (snd (chat sv question session_id k documents st))
           = calls st @ SimilaritySearch question (max_context_docs sv) flt # rest"
    using answer_question_calls [of sv question session_id "top_k sv k" "parse_documents documents" st]
    by (simp add: chat_state [OF assms(2)] t)
  have e: "chat sv question session_id k documents st
           = chat sv question session_id None documents st"
    using t by (simp add: chat_def top_k_def)
  show ?thesis using t c e chat_not_400 [OF assms(2)] by blast
qed

theorem chat_zero_k_default_witness:
  "(Some (0::int) = None \<or> Some (0::int) = Some 0) \<and> py_strip (ascii ''hi'') \<noteq> []
   \<and> top_k services0 (Some 0) = 6
   \<and> (\<exists>flt rest. calls (snd (chat services0 (ascii ''hi'') (ascii ''s1'') (Some 0) None state0))
         = SimilaritySearch (ascii ''hi'') 6 flt # rest)
   \<and> chat services0 (ascii ''hi'') (ascii ''s1'') (Some 0) None state0
       = chat services0 (ascii ''hi'') (ascii ''s1'') None None state0"
proof -
  have h1: "Some (0::int) = None \<or> Some (0::int) = Some 0" by simp
  have m: "max_context_docs services0 = 6" "calls state0 = []"
    by (simp_all add: services0_def state0_def)
  note t = chat_zero_k_default [OF h1 hi_not_blank, where sv = services0
      and session_id = "ascii ''s1''" and documents = None and st = state0]
  have a: "top_k services0 (Some 0) = 6"
    using t [THEN conjunct1] by (simp add: m)
  have b: "\<exists>flt rest. calls (snd (chat services0 (ascii ''hi'') (ascii ''s1'') (Some 0) None state0))
         = SimilaritySearch (ascii ''hi'') 6 flt # rest"
    using t [THEN conjunct2, THEN conjunct1] by (simp add: m)
  show ?thesis
    using h1 hi_not_blank a b t [THEN conjunct2, THEN conjunct2, THEN conjunct1] by blast
qed

text \<open>
  C10, as amended. Take a chat request that names a session the store does not hold.
  When its question is not blank and retrieval returns, the session is in the store
  afterwards; and when the generation call then raises, the request is answered with
  status 500 and the store is the former store with an empty history for that session:
  the entry was made during prompt assembly and stays. When the question is blank or
  retrieval raises, the request ends before prompt assembly and the store is as before.
\<close>

theorem failed_chat_creates_session:
  assumes "SESSION_STORE st session_id = None"
  shows "(py_strip question \<noteq> []
          \<and> fst (retrieve_context sv question (top_k sv k) (parse_documents documents) st) = Inr docs
          \<longrightarrow> SESSION_STORE (snd (chat sv question session_id k documents st)) session_id \<noteq> None
              \<and> (\<forall>e. llm_invoke sv (prompt_for sv docs question []) = Inl e \<longrightarrow>
                    fst (chat sv question session_id k documents st)
                      = Inl (HTTPException 500 (ascii ''Chat failed: '' @ e))
                    \<and> SESSION_STORE (snd (chat sv question session_id k documents st))
                        = (SESSION_STORE st)(session_id \<mapsto> [])))
     \<and> (py_strip question = []
          \<or> (\<exists>e. fst (retrieve_context sv question (top_k sv k) (parse_documents documents) st) = Inl e)
          \<longrightarrow> SESSION_STORE (snd (chat sv question session_id k documents st)) = SESSION_STORE st)"
proof -
  obtain flt where r: "retrieve_context sv question (top_k sv k) (parse_documents documents) st
     = (similarity_search sv question (top_k sv k) flt,
        st\<lparr>calls := calls st @ [SimilaritySearch question (top_k sv k) flt]\<rparr>)"
    using retrieve_context_calls by blast
  show ?thesis
    using assms
    by (auto simp: chat_def answer_question_def Let_def r get_history_def prompt_for_def
          split: sum.splits option.splits prod.splits)
qed

theorem failed_chat_creates_session_witness:
  "SESSION_STORE state0 (ascii ''s1'') = None
   \<and> py_strip (ascii ''hi'') \<noteq> []
   \<and> fst (retrieve_context services_llm_down (ascii ''hi'') (top_k services_llm_down None)
            (parse_documents None) state0) = Inr store0
   \<and> llm_invoke services_llm_down (prompt_for services_llm_down store0 (ascii ''hi'') [])
       = Inl (ascii ''rate limit'')
   \<and> fst (chat services_llm_down (ascii ''hi'') (ascii ''s1'') None None state0)
       = Inl (HTTPException 500 (ascii ''Chat failed: '' @ ascii ''rate limit''))
   \<and> SESSION_STORE (snd (chat services_llm_down (ascii ''hi'') (ascii ''s1'') None None state0))
       = [ascii ''s1'' \<mapsto> []]
   \<and> py_strip [32] = []
   \<and> SESSION_STORE (snd (chat services_llm_down [32] (ascii ''s1'') None None state0))
       = Map.empty"
proof -
  have h: "SESSION_STORE state0 (ascii ''s1'') = None" by (simp add: state0_def)
  have r: "fst (retrieve_context services_llm_down (ascii ''hi'') (top_k services_llm_down None)
            (parse_documents None) state0) = Inr store0"
    by (simp add: retrieve_context_def parse_documents_def services_llm_down_def services0_def
          search0_def top_k_def store0_def)
  have l: "llm_invoke services_llm_down (prompt_for services_llm_down store0 (ascii ''hi'') [])
       = Inl (ascii ''rate limit'')"
    by (simp add: services_llm_down_def)
  have b: "py_strip [32] = []"
    by (simp add: py_strip_def py_isspace_def)
  note t = failed_chat_creates_session [OF h, where question = "ascii ''hi''"
      and sv = services_llm_down and k = None and documents = None and docs = store0]
  note u = failed_chat_creates_session [OF h, where question = "[32]"
      and sv = services_llm_down and k = None and documents = None and docs = store0]
  have t': "fst (chat services_llm_down (ascii ''hi'') (ascii ''s1'') None None state0)
       = Inl (HTTPException 500 (ascii ''Chat failed: '' @ ascii ''rate limit''))
     \<and> SESSION_STORE (snd (chat services_llm_down (ascii ''hi'') (ascii ''s1'') None None state0))
       = [ascii ''s1'' \<mapsto> []]"
    using t [THEN conjunct1] hi_not_blank r l by (simp add: state0_def)
  have u': "SESSION_STORE (snd (chat services_llm_down [32] (ascii ''s1'') None None state0))
       = Map.empty"
    using u [THEN conjunct2] b by (simp add: state0_def)
  show ?thesis
    using h hi_not_blank r l t' b u' by simp
qed

text \<open>
  C10 as stated, for every chat request naming a previously-unseen session, fails: when
  the vector store raises, the request fails with status 500 before \<open>get_history\<close> is
  reached, and the store still does not hold the session.
\<close>

theorem failed_retrieval_creates_no_session_counterexample:
  "SESSION_STORE state0 (ascii ''s1'') = None
   \<and> fst (chat services_db_down (ascii ''hi'') (ascii ''s1'') None None state0)
       = Inl (HTTPException 500 (ascii ''Chat failed: '' @ ascii ''connection refused''))
   \<and> SESSION_STORE (snd (chat services_db_down (ascii ''hi'') (ascii ''s1'') None None state0))
        (ascii ''s1'') = None"
  using hi_not_blank
  by (auto simp: chat_def answer_question_def retrieve_context_def parse_documents_def
        services_db_down_def state0_def)

section \<open>The document filter\<close>

lemma blank_document_filter:
  assumes "py_strip ds = []"
  shows "document_filter (Some ds) = []"
proof -
  have "\<not> py_isspace 44" by (simp add: py_isspace_def)
  then have "44 \<notin> set ds" using assms py_strip_eq_Nil by blast
  then have "py_split 44 ds = [ds]" by (rule py_split_no_sep)
  then show ?thesis using assms by (simp add: document_filter_def)
qed

lemma parse_documents_filter:
  "parse_documents documents
     = (if documents = None \<or> py_strip (the documents) = [] then None
        else Some (document_filter documents))"
  by (cases documents) (auto simp: parse_documents_def document_filter_def filter_map comp_def)

lemma retrieve_context_parsed:
  "retrieve_context sv q k (parse_documents documents) st
     = (let flt = (if document_filter documents = [] then None
                   else Some (document_filter documents))
        in (similarity_search sv q k flt, st\<lparr>calls := calls st @ [SimilaritySearch q k flt]\<rparr>))"
proof (cases documents)
  case None
  then show ?thesis
    by (simp add: parse_documents_def document_filter_def retrieve_context_def)
next
  case (Some ds)
  show ?thesis
  proof (cases "py_strip ds = []")
    case True
    then show ?thesis
      using Some blank_document_filter [OF True]
      by (simp add: parse_documents_filter retrieve_context_def)
  next
    case False
    then show ?thesis
      using Some
      by (simp add: parse_documents_filter retrieve_context_def Let_def split: list.splits)
  qed
qed

text \<open>
  C5. The \<open>documents\<close> field is split on commas, each entry trimmed and the empty entries
  dropped. Retrieval with the parsed field is one similarity search: unrestricted when
  no entry is left (field absent, empty, blank or made of empty entries), restricted to
  the entries otherwise. With a vector store that honours the restriction, the chunks
  retrieved under a non-empty filter all carry a \<open>source\<close> of the filter. A chat request
  with a non-blank question records exactly this search first.
\<close>

theorem chat_document_filter:
  assumes "honours_filter sv"
  shows "retrieve_context sv q k (parse_documents documents) st
     = (let flt = (if document_filter documents = [] then None
                   else Some (document_filter documents))
        in (similarity_search sv q k flt, st\<lparr>calls := calls st @ [SimilaritySearch q k flt]\<rparr>))
   \<and> (document_filter documents \<noteq> [] \<longrightarrow>
        (\<forall>docs. fst (retrieve_context sv q k (parse_documents documents) st) = Inr docs \<longrightarrow>
           (\<forall>d \<in> set docs. \<exists>s \<in> set (document_filter documents).
               metadata d ''source'' = Some (PStr s))))
   \<and> (py_strip q \<noteq> [] \<longrightarrow>
        (\<exists>rest. calls (snd (chat sv q session_id k' documents st))
           = calls st @ SimilaritySearch q (top_k sv k')
               (if document_filter documents = [] then None else Some (document_filter documents))
             # rest))"
proof -
  have a: "\<forall>d \<in> set docs. \<exists>s \<in> set (document_filter documents). metadata d ''source'' = Some (PStr s)"
    if "document_filter documents \<noteq> []"
      and "fst (retrieve_context sv q k (parse_documents documents) st) = Inr docs" for docs
  proof -
    have "similarity_search sv q k (Some (document_filter documents)) = Inr docs"
      using that by (simp add: retrieve_context_parsed Let_def)
    then show ?thesis
      using assms unfolding honours_filter_def by blast
  qed
  have b: "\<exists>rest. calls (snd (chat sv q session_id k' documents st))
           = calls st @ SimilaritySearch q (top_k sv k')
               (if document_filter documents = [] then None else Some (document_filter documents))
             # rest" if nb: "py_strip q \<noteq> []"
    using answer_question_calls_after [of sv q session_id "top_k sv k'" "parse_documents documents" st]
    by (simp add: chat_state [OF nb] retrieve_context_parsed Let_def)
  show ?thesis
    using a b retrieve_context_parsed by blast
qed

theorem chat_document_filter_witness:
  "honours_filter services0
   \<and> document_filter (Some (ascii '' A.pdf , ,'')) = [ascii ''A.pdf'']
   \<and> py_strip (ascii ''hi'') \<noteq> []
   \<and> (\<exists>docs. fst (retrieve_context services0 (ascii ''hi'') 6
                    (parse_documents (Some (ascii '' A.pdf , ,''))) state0) = Inr docs
         \<and> length docs = 2
         \<and> (\<forall>d \<in> set docs. metadata d ''source'' = Some (PStr (ascii ''A.pdf''))))
   \<and> (\<exists>rest. calls (snd (chat services0 (ascii ''hi'') (ascii ''s1'') None
                            (Some (ascii '' A.pdf , ,'')) state0))
         = SimilaritySearch (ascii ''hi'') 6 (Some [ascii ''A.pdf'']) # rest)"
proof -
  let ?D = "Some (ascii '' A.pdf , ,'')"
  have h: "honours_filter services0"
    by (auto simp: honours_filter_def services0_def search0_def dest: in_set_takeD)
  have d: "document_filter ?D = [ascii ''A.pdf'']"
    by (simp add: document_filter_def ascii_def py_strip_def py_isspace_def)
  note t = chat_document_filter [OF h, where q = "ascii ''hi''" and k = 6 and documents = ?D
      and st = state0 and session_id = "ascii ''s1''" and k' = None]
  have r: "fst (retrieve_context services0 (ascii ''hi'') 6 (parse_documents ?D) state0)
     = similarity_search services0 (ascii ''hi'') 6 (Some [ascii ''A.pdf''])"
    using t by (simp add: d Let_def)
  obtain docs where docs: "similarity_search services0 (ascii ''hi'') 6 (Some [ascii ''A.pdf'']) = Inr docs"
    and len: "length docs = 2"
    by (simp add: services0_def search0_def store0_def doc_def ascii_def)
  have s: "\<forall>d \<in> set docs. metadata d ''source'' = Some (PStr (ascii ''A.pdf''))"
    using t r docs by (simp add: d)
  have c: "\<exists>rest. calls (snd (chat services0 (ascii ''hi'') (ascii ''s1'') None ?D state0))
         = SimilaritySearch (ascii ''hi'') 6 (Some [ascii ''A.pdf'']) # rest"
    using t hi_not_blank by (simp add: d top_k_def services0_def state0_def)
  show ?thesis
    using h d hi_not_blank r docs len s c by auto
qed

section \<open>Citations\<close>

text \<open>
  The dictionary \<open>unique_sources\<close> after the first loop is \<open>summary\<close>: the keys in the
  order of their first occurrence, each with the entry of the first longest chunk of its
  key. The proof follows the loop from the left, one chunk at a time.
\<close>

lemma collect_snoc: "collect us (ds @ [d]) = collect_step (collect us ds) d"
  by (induction ds arbitrary: us) simp_all

lemma set_first_seen [simp]: "set (first_seen xs) = set xs"
  by (induction xs) auto

lemma distinct_first_seen [simp]: "distinct (first_seen xs)"
  by (induction xs) auto

lemma first_seen_snoc:
  "first_seen (xs @ [x]) = (if x \<in> set xs then first_seen xs else first_seen xs @ [x])"
proof (induction xs)
  case Nil
  then show ?case by simp
next
  case (Cons y ys)
  then show ?case by auto
qed

lemma first_seen_map_inj:
  "inj_on f (set xs) \<Longrightarrow> first_seen (map f xs) = map f (first_seen xs)"
proof (induction xs)
  case Nil
  then show ?case by simp
next
  case (Cons x xs)
  then have ih: "first_seen (map f xs) = map f (first_seen xs)" by simp
  have "filter (\<lambda>y. f y \<noteq> f x) (first_seen xs) = filter (\<lambda>y. y \<noteq> x) (first_seen xs)"
    using Cons.prems by (intro filter_cong refl) (auto simp: inj_on_def)
  then show ?case by (simp add: ih filter_map comp_def)
qed

lemma best_snoc: "best (g @ [d]) = upd_best (best g) d"
  by (simp add: best_def)

lemma best_None: "best g = None \<longleftrightarrow> g = []"
proof (induction g rule: rev_induct)
  case Nil
  then show ?case by (simp add: best_def)
next
  case (snoc d g)
  then show ?case by (simp add: best_snoc upd_best_def split: option.splits)
qed

lemma best_first_longest: "best g = Some w \<Longrightarrow> first_longest w g"
proof (induction g arbitrary: w rule: rev_induct)
  case Nil
  then show ?case by (simp add: best_def)
next
  case (snoc d g)
  show ?case
  proof (cases "best g")
    case None
    then have "g = []" by (simp add: best_None)
    moreover have "w = d" using snoc.prems None by (simp add: best_snoc upd_best_def)
    ultimately show ?thesis by (simp add: first_longest_def)
  next
    case (Some w0)
    from snoc.IH [OF Some] obtain i where i: "i < length g" "g ! i = w0"
      and mx: "\<forall>j < length g. length (page_content (g ! j)) \<le> length (page_content w0)"
      and fs: "\<forall>j < i. length (page_content (g ! j)) < length (page_content w0)"
      unfolding first_longest_def by blast
    show ?thesis
    proof (cases "length (page_content d) > length (page_content w0)")
      case True
      then have w: "w = d" using snoc.prems Some by (simp add: best_snoc upd_best_def)
      have a: "(g @ [d]) ! length g = d" by simp
      have c: "\<forall>j < length g. length (page_content ((g @ [d]) ! j)) < length (page_content d)"
      proof (intro allI impI)
        fix j assume j: "j < length g"
        then have "length (page_content (g ! j)) \<le> length (page_content w0)" using mx by simp
        then show "length (page_content ((g @ [d]) ! j)) < length (page_content d)"
          using True j by (simp add: nth_append)
      qed
      have b: "\<forall>j < length (g @ [d]). length (page_content ((g @ [d]) ! j)) \<le> length (page_content d)"
      proof (intro allI impI)
        fix j assume j: "j < length (g @ [d])"
        show "length (page_content ((g @ [d]) ! j)) \<le> length (page_content d)"
        proof (cases "j < length g")
          case True
          then show ?thesis using c by (simp add: less_imp_le)
        next
          case False
          then have "j = length g" using j by simp
          then show ?thesis by simp
        qed
      qed
      show ?thesis unfolding first_longest_def w
        using a b c by (intro exI [of _ "length g"]) simp
    next
      case False
      then have w: "w = w0" using snoc.prems Some by (simp add: best_snoc upd_best_def)
      have a: "(g @ [d]) ! i = w0" using i by (simp add: nth_append)
      have b: "\<forall>j < length (g @ [d]). length (page_content ((g @ [d]) ! j)) \<le> length (page_content w0)"
        using mx False by (auto simp: nth_append less_Suc_eq)
      have c: "\<forall>j < i. length (page_content ((g @ [d]) ! j)) < length (page_content w0)"
        using fs i by (auto simp: nth_append)
      show ?thesis unfolding first_longest_def w
        using a b c i by (intro exI [of _ i]) simp
    qed
  qed
qed

lemma first_longest_mem: "first_longest w g \<Longrightarrow> w \<in> set g"
  by (auto simp: first_longest_def)

lemma cited_snoc: "cited (ds @ [d]) = (if has_source d then cited ds @ [d] else cited ds)"
  by (simp add: cited_def)

lemma slot_snoc:
  "slot (ds @ [d]) k
     = (if has_source d \<and> source_key d = k then upd_best (slot ds k) d else slot ds k)"
  by (simp add: slot_def cited_snoc best_snoc)

lemma slot_None: "slot ds k = None \<longleftrightarrow> k \<notin> set (keys_of ds)"
  by (auto simp: slot_def keys_of_def best_None filter_empty_conv)

lemma keys_of_snoc:
  "keys_of (ds @ [d])
     = (if has_source d \<and> source_key d \<notin> set (keys_of ds) then keys_of ds @ [source_key d]
        else keys_of ds)"
  by (simp add: keys_of_def cited_snoc first_seen_snoc)

lemma distinct_keys_of: "distinct (keys_of ds)"
  by (simp add: keys_of_def)

lemma dict_contains_map: "dict_contains (map (\<lambda>k. (k, f k)) ks) k \<longleftrightarrow> k \<in> set ks"
  by (induction ks) auto

lemma dict_lookup_map:
  "dict_lookup (map (\<lambda>k. (k, f k)) ks) k = (if k \<in> set ks then Some (f k) else None)"
  by (induction ks) auto

lemma dict_set_new:
  "k \<notin> set ks \<Longrightarrow> dict_set (map (\<lambda>k. (k, f k)) ks) k v = map (\<lambda>k. (k, f k)) ks @ [(k, v)]"
  by (induction ks) auto

lemma dict_set_old:
  "k \<in> set ks \<Longrightarrow> distinct ks \<Longrightarrow>
   dict_set (map (\<lambda>k'. (k', f k')) ks) k v = map (\<lambda>k'. (k', if k' = k then v else f k')) ks"
  by (induction ks) auto

lemma collect_step_alt:
  "collect_step us d =
     (if \<not> has_source d then us
      else if \<not> dict_contains us (source_key d)
              \<or> (case dict_lookup us (source_key d) of
                    None \<Rightarrow> False
                  | Some e \<Rightarrow> length (page_content d) > length (content e))
           then dict_set us (source_key d) (make_entry d)
           else us)"
  by (simp add: collect_step_def has_source_def)

lemma content_make_entry [simp]: "content (make_entry d) = page_content d"
  by (simp add: make_entry_def)

lemma summary_step: "collect_step (summary ds) d = summary (ds @ [d])"
proof (cases "has_source d")
  case False
  then show ?thesis
    by (simp add: collect_step_alt summary_def slot_snoc keys_of_snoc)
next
  case True
  let ?k = "source_key d"
  show ?thesis
  proof (cases "?k \<in> set (keys_of ds)")
    case False
    then have n: "slot ds ?k = None" by (simp add: slot_None)
    have l: "collect_step (summary ds) d = summary ds @ [(?k, make_entry d)]"
      using True False by (simp add: collect_step_alt summary_def dict_contains_map dict_set_new)
    have k: "keys_of (ds @ [d]) = keys_of ds @ [?k]"
      using True False by (simp add: keys_of_snoc)
    have p: "\<forall>k' \<in> set (keys_of ds). slot (ds @ [d]) k' = slot ds k'"
      using False by (auto simp: slot_snoc)
    have q: "slot (ds @ [d]) ?k = Some d"
      using True n by (simp add: slot_snoc upd_best_def)
    show ?thesis
      unfolding l using p q by (simp add: k summary_def)
  next
    case inn: True
    then obtain w0 where w0: "slot ds ?k = Some w0"
      using slot_None [of ds ?k] by (cases "slot ds ?k") auto
    have k: "keys_of (ds @ [d]) = keys_of ds"
      using inn by (simp add: keys_of_snoc)
    have p: "\<forall>k' \<in> set (keys_of ds). k' \<noteq> ?k \<longrightarrow> slot (ds @ [d]) k' = slot ds k'"
      by (auto simp: slot_snoc)
    have lk: "dict_lookup (summary ds) ?k = Some (make_entry w0)"
      using inn w0 by (simp add: summary_def dict_lookup_map)
    have ct: "dict_contains (summary ds) ?k"
      using inn by (simp add: summary_def dict_contains_map)
    show ?thesis
    proof (cases "length (page_content d) > length (page_content w0)")
      case longer: True
      have l: "collect_step (summary ds) d = dict_set (summary ds) ?k (make_entry d)"
        using True longer by (simp add: collect_step_alt lk ct)
      have l2: "dict_set (summary ds) ?k (make_entry d)
         = map (\<lambda>k'. (k', if k' = ?k then make_entry d else make_entry (the (slot ds k')))) (keys_of ds)"
        unfolding summary_def using inn distinct_keys_of by (rule dict_set_old)
      have q: "slot (ds @ [d]) ?k = Some d"
        using True longer w0 by (simp add: slot_snoc upd_best_def)
      have r: "summary (ds @ [d])
         = map (\<lambda>k'. (k', if k' = ?k then make_entry d else make_entry (the (slot ds k')))) (keys_of ds)"
        using p q by (auto simp: summary_def k)
      show ?thesis
        by (simp only: l l2 r)
    next
      case False
      have l: "collect_step (summary ds) d = summary ds"
        using True False by (simp add: collect_step_alt lk ct)
      have q: "slot (ds @ [d]) ?k = slot ds ?k"
        using True False w0 by (simp add: slot_snoc upd_best_def)
      have r: "summary (ds @ [d]) = summary ds"
        using p q by (auto simp: summary_def k)
      show ?thesis
        by (simp only: l r)
    qed
  qed
qed

lemma collect_summary: "collect [] docs = summary docs"
proof (induction docs rule: rev_induct)
  case Nil
  then show ?case by (simp add: summary_def keys_of_def cited_def)
next
  case (snoc d ds)
  then show ?case by (simp add: collect_snoc summary_step)
qed

lemma del_content_make_entry: "del_content (make_entry d) = cite d"
  by (simp add: del_content_def make_entry_def cite_def)

lemma build_citations_eq:
  "build_citations docs = map (\<lambda>k. cite (the (slot docs k))) (keys_of docs)"
  by (simp add: build_citations_def collect_summary summary_def comp_def del_content_make_entry)

lemma slot_winner:
  assumes "k \<in> set (keys_of docs)"
  shows "\<exists>w. slot docs k = Some w \<and> first_longest w (filter (\<lambda>d. source_key d = k) (cited docs))"
proof -
  obtain w where w: "slot docs k = Some w"
    using assms slot_None [of docs k] by (cases "slot docs k") auto
  then have "first_longest w (filter (\<lambda>d. source_key d = k) (cited docs))"
    unfolding slot_def by (rule best_first_longest)
  with w show ?thesis by blast
qed

lemma snippet_cite: "snippet (cite d) = make_snippet (page_content d)"
  by (simp add: cite_def)

lemma citation_pair_cite: "citation_pair (cite d) = pair_of d"
  by (simp add: citation_pair_def cite_def pair_of_def)

lemma no_source_not_cited: "metadata d ''source'' = None \<Longrightarrow> d \<notin> set (cited docs)"
  by (simp add: cited_def has_source_def dict_get_def)

text \<open>
  C8. The citations correspond, in order, to the keys of the chunks that have a source;
  the snippet of each is computed from the content of the winning chunk of its key (the
  first longest one): the content itself when it has at most 240 characters, its first
  240 characters followed by the ellipsis character U+2026 otherwise.
\<close>

theorem citation_snippet:
  "list_all2
     (\<lambda>c k. \<exists>w. first_longest w (filter (\<lambda>d. source_key d = k) (cited docs))
        \<and> snippet c = (if length (page_content w) \<le> 240 then page_content w
                        else take 240 (page_content w) @ [8230]))
     (build_citations docs) (first_seen (map source_key (cited docs)))"
proof -
  have "\<exists>w. first_longest w (filter (\<lambda>d. source_key d = k) (cited docs))
          \<and> snippet (cite (the (slot docs k)))
              = (if length (page_content w) \<le> 240 then page_content w
                 else take 240 (page_content w) @ [8230])"
    if kk: "k \<in> set (keys_of docs)" for k
  proof -
    obtain w where "slot docs k = Some w"
      and "first_longest w (filter (\<lambda>d. source_key d = k) (cited docs))"
      using slot_winner [OF kk] by blast
    then show ?thesis
      by (intro exI [of _ w]) (simp add: snippet_cite make_snippet_def)
  qed
  then show ?thesis
    unfolding build_citations_eq keys_of_def [symmetric]
    by (simp add: list_all2_map1 list_all2_same)
qed

theorem citation_snippet_witness:
  "map snippet (build_citations [long_doc]) = [replicate 240 120 @ [8230]]"
proof -
  have k: "cited [long_doc] = [long_doc]"
    by (simp add: cited_def has_source_def long_doc_def dict_get_def ascii_def)
  have "list_all2
     (\<lambda>c k. \<exists>w. first_longest w (filter (\<lambda>d. source_key d = k) [long_doc])
        \<and> snippet c = (if length (page_content w) \<le> 240 then page_content w
                        else take 240 (page_content w) @ [8230]))
     (build_citations [long_doc]) [source_key long_doc]"
    using citation_snippet [of "[long_doc]"] by (simp add: k)
  then obtain c w where c: "build_citations [long_doc] = [c]"
    and w: "first_longest w [long_doc]"
    and s: "snippet c = (if length (page_content w) \<le> 240 then page_content w
                         else take 240 (page_content w) @ [8230])"
    by (auto simp: list_all2_Cons2)
  have "w = long_doc" using w by (simp add: first_longest_def)
  then have "snippet c = replicate 240 120 @ [8230]"
    using s by (simp add: long_doc_def)
  then show ?thesis by (simp add: c)
qed

subsection \<open>Keys and (source, page) pairs\<close>

text \<open>
  The key \<open>source:page\<close> determines the pair when the source is a string and the page an
  integer or missing: the rendering of the page holds no colon, so the last colon of the
  key separates the two.
\<close>

lemma str_nat_digits: "c \<in> set (str_nat n) \<Longrightarrow> 48 \<le> c \<and> c \<le> 57"
proof (induction n rule: str_nat.induct)
  case (1 n)
  show ?case
  proof (cases "n < 10")
    case True
    then show ?thesis using "1.prems" by (subst (asm) str_nat.simps) auto
  next
    case False
    then have "c \<in> set (str_nat (n div 10)) \<or> c = 48 + n mod 10"
      using "1.prems" by (subst (asm) str_nat.simps) auto
    then show ?thesis
    proof
      assume "c \<in> set (str_nat (n div 10))"
      then show ?thesis using "1.IH" False by simp
    next
      assume "c = 48 + n mod 10"
      moreover have "n mod 10 < 10" by simp
      ultimately show ?thesis by linarith
    qed
  qed
qed

lemma str_nat_nonempty: "str_nat n \<noteq> []"
  by (subst str_nat.simps) simp

lemma digits_value_snoc: "digits_value (ds @ [c]) = 10 * digits_value ds + (c - 48)"
  by (simp add: digits_value_def)

lemma digits_value_str_nat: "digits_value (str_nat n) = n"
proof (induction n rule: str_nat.induct)
  case (1 n)
  show ?case
  proof (cases "n < 10")
    case True
    then show ?thesis by (subst str_nat.simps) (simp add: digits_value_def)
  next
    case False
    then have "digits_value (str_nat n) = 10 * digits_value (str_nat (n div 10)) + n mod 10"
      by (subst str_nat.simps) (simp add: digits_value_snoc)
    then show ?thesis using "1.IH" False by simp
  qed
qed

lemma str_nat_inj: "str_nat m = str_nat n \<Longrightarrow> m = n"
  by (metis digits_value_str_nat)

lemma str_int_chars: "c \<in> set (str_int i) \<Longrightarrow> c = 45 \<or> (48 \<le> c \<and> c \<le> 57)"
  using str_nat_digits by (auto simp: str_int_def split: if_splits)

lemma str_int_inj: "str_int i = str_int j \<Longrightarrow> i = j"
proof -
  have neg: "45 # str_nat m \<noteq> str_nat n" for m n
  proof
    assume "45 # str_nat m = str_nat n"
    then have "45 \<in> set (str_nat n)" by (metis list.set_intros(1))
    then show False using str_nat_digits by fastforce
  qed
  assume e: "str_int i = str_int j"
  show ?thesis
  proof (cases "i < 0")
    case True
    show ?thesis
    proof (cases "j < 0")
      case jn: True
      then have "nat (- i) = nat (- j)" using e True by (simp add: str_int_def str_nat_inj)
      then show ?thesis using True jn by simp
    next
      case False
      then show ?thesis using e True neg by (simp add: str_int_def)
    qed
  next
    case False
    show ?thesis
    proof (cases "j < 0")
      case True
      then show ?thesis using e False neg [of "nat (- j)" "nat i"] by (simp add: str_int_def)
    next
      case jp: False
      then have "nat i = nat j" using e False by (simp add: str_int_def str_nat_inj)
      then show ?thesis using False jp by simp
    qed
  qed
qed

lemma str_int_1: "str_int 1 = [49]"
  by (simp add: str_int_def str_nat.simps)

lemma last_sep_unique:
  assumes "xs @ c # r = xs' @ c # r'" and "c \<notin> set r" and "c \<notin> set r'"
  shows "xs = xs' \<and> r = r'"
proof -
  have t: "takeWhile (\<lambda>x. x \<noteq> c) (rev (ys @ c # q)) = rev q" if "c \<notin> set q" for ys q
    using that by (auto simp: takeWhile_tail)
  have "rev r = rev r'"
    using t [OF assms(2), of xs] t [OF assms(3), of xs'] assms(1) by simp
  then have "r = r'" by simp
  then show ?thesis using assms(1) by simp
qed

lemma colon_not_in_none: "58 \<notin> set (ascii ''none'')"
  by (simp add: ascii_def)

lemma colon_not_in_str_int: "58 \<notin> set (str_int i)"
  using str_int_chars by fastforce

lemma str_int_not_none: "str_int i \<noteq> ascii ''none''"
proof
  assume "str_int i = ascii ''none''"
  then have "110 \<in> set (str_int i)" by (simp add: ascii_def)
  then show False using str_int_chars by fastforce
qed

lemma key_of_pair_inj:
  assumes "typed_pair p" and "typed_pair q" and "key_of_pair p = key_of_pair q"
  shows "p = q"
proof -
  obtain s where s: "fst p = PStr s" using assms(1) by (auto simp: typed_pair_def)
  obtain s' where s': "fst q = PStr s'" using assms(2) by (auto simp: typed_pair_def)
  let ?r = "\<lambda>v. (case v of PNone \<Rightarrow> ascii ''none'' | v \<Rightarrow> py_str v)"
  have nc: "58 \<notin> set (?r (snd x))" if "typed_pair x" for x
    using that colon_not_in_none colon_not_in_str_int by (auto simp: typed_pair_def)
  have "s @ 58 # ?r (snd p) = s' @ 58 # ?r (snd q)"
    using assms(3) s s' by (simp add: key_of_pair_def ascii_def)
  then have e: "s = s' \<and> ?r (snd p) = ?r (snd q)"
    using nc [OF assms(1)] nc [OF assms(2)] by (rule last_sep_unique)
  have "snd p = snd q"
    using assms(1,2) e str_int_not_none str_int_inj
    by (auto simp: typed_pair_def) metis+
  then show ?thesis using e s s' by (simp add: prod_eq_iff)
qed

lemma typed_cited:
  assumes "typed_meta d" and "has_source d"
  shows "typed_pair (pair_of d)" and "source_key d = key_of_pair (pair_of d)"
  using assms
  by (auto simp: typed_meta_def has_source_def typed_pair_def pair_of_def source_key_def
        key_of_pair_def dict_get_def dict_get_default_def split: option.splits)

lemma pairs_store0:
  "first_seen (map pair_of (cited store0))
     = [(PStr (ascii ''A.pdf''), PInt 0), (PStr (ascii ''B.txt''), PNone)]"
  by (simp add: store0_def doc_def cited_def has_source_def pair_of_def dict_get_def ascii_def)

lemma build_citations_by_key:
  "list_all2
     (\<lambda>c k. \<exists>w. first_longest w (filter (\<lambda>d. source_key d = k) (cited docs)) \<and> c = cite w)
     (build_citations docs) (first_seen (map source_key (cited docs)))"
proof -
  have "\<exists>w. first_longest w (filter (\<lambda>d. source_key d = k) (cited docs))
          \<and> cite (the (slot docs k)) = cite w"
    if kk: "k \<in> set (keys_of docs)" for k
    using slot_winner [OF kk] by auto
  then show ?thesis
    unfolding build_citations_eq keys_of_def [symmetric]
    by (simp add: list_all2_map1 list_all2_same)
qed

lemma build_citations_by_pair:
  assumes "\<forall>d \<in> set docs. typed_meta d"
  shows "list_all2
           (\<lambda>c p. \<exists>w. first_longest w (filter (\<lambda>d. pair_of d = p) (cited docs)) \<and> c = cite w)
           (build_citations docs) (first_seen (map pair_of (cited docs)))
     \<and> map citation_pair (build_citations docs) = first_seen (map pair_of (cited docs))
     \<and> distinct (map citation_pair (build_citations docs))
     \<and> (\<forall>d \<in> set docs. metadata d ''source'' = None \<longrightarrow> d \<notin> set (cited docs))"
proof -
  let ?ds = "cited docs"
  let ?ps = "first_seen (map pair_of ?ds)"
  have ty: "typed_pair (pair_of d) \<and> source_key d = key_of_pair (pair_of d)" if "d \<in> set ?ds" for d
    using that assms typed_cited [of d] by (auto simp: cited_def)
  have inj: "inj_on key_of_pair (set (map pair_of ?ds))"
    using ty key_of_pair_inj by (auto simp: inj_on_def)
  have "map source_key ?ds = map key_of_pair (map pair_of ?ds)"
    using ty by simp
  then have keys: "keys_of docs = map key_of_pair ?ps"
    unfolding keys_of_def using first_seen_map_inj [OF inj] by (simp only:)
  have grp: "filter (\<lambda>d. source_key d = key_of_pair p) ?ds = filter (\<lambda>d. pair_of d = p) ?ds"
    if pp: "p \<in> set ?ps" for p
  proof (intro filter_cong refl)
    fix d assume d: "d \<in> set ?ds"
    obtain d' where d': "d' \<in> set ?ds" "p = pair_of d'" using pp by auto
    have "key_of_pair (pair_of d) = key_of_pair (pair_of d') \<Longrightarrow> pair_of d = pair_of d'"
      using ty [OF d] ty [OF d'(1)] by (intro key_of_pair_inj) simp_all
    then show "(source_key d = key_of_pair p) = (pair_of d = p)"
      using ty [OF d] d'(2) by auto
  qed
  have bc: "build_citations docs = map (\<lambda>p. cite (the (slot docs (key_of_pair p)))) ?ps"
    by (simp add: build_citations_eq keys comp_def)
  have win: "\<exists>w. first_longest w (filter (\<lambda>d. pair_of d = p) ?ds)
               \<and> cite (the (slot docs (key_of_pair p))) = cite w" if p: "p \<in> set ?ps" for p
  proof -
    have "key_of_pair p \<in> set (keys_of docs)" using p keys by simp
    then obtain w where "slot docs (key_of_pair p) = Some w"
      and "first_longest w (filter (\<lambda>d. source_key d = key_of_pair p) ?ds)"
      using slot_winner by blast
    then show ?thesis using grp [OF p] by auto
  qed
  have c1: "list_all2
           (\<lambda>c p. \<exists>w. first_longest w (filter (\<lambda>d. pair_of d = p) ?ds) \<and> c = cite w)
           (build_citations docs) ?ps"
    unfolding bc using win by (simp add: list_all2_map1 list_all2_same)
  have "citation_pair (cite (the (slot docs (key_of_pair p)))) = p" if p: "p \<in> set ?ps" for p
  proof -
    obtain w where w: "first_longest w (filter (\<lambda>d. pair_of d = p) ?ds)"
      and e: "cite (the (slot docs (key_of_pair p))) = cite w"
      using win [OF p] by blast
    have "pair_of w = p" using first_longest_mem [OF w] by simp
    then show ?thesis by (simp add: e citation_pair_cite)
  qed
  then have "map (\<lambda>p. citation_pair (cite (the (slot docs (key_of_pair p))))) ?ps = ?ps"
    by (intro map_idI) simp
  then have c2: "map citation_pair (build_citations docs) = ?ps"
    unfolding bc by (simp add: comp_def)
  have c3: "distinct (map citation_pair (build_citations docs))"
    unfolding c2 by simp
  show ?thesis
    using c1 c2 c3 no_source_not_cited by blast
qed

text \<open>
  C3. For every list of chunks, the citations correspond, in order, to the distinct keys
  \<open>source:page\<close> of the chunks that have a source, in the order in which the keys are first
  seen, and each citation is built from the first longest chunk of its key; a chunk
  without \<open>source\<close> is skipped. When \<open>source\<close> is a string and \<open>page\<close> an integer where
  present, as the loaders write them, the key determines the (source, page) pair, and
  the same holds pair by pair: one citation for each distinct pair, in the order in which
  the pairs are first seen, built from the first longest chunk of the pair, and no two
  citations with the same pair.
\<close>

theorem build_citations_dedup:
  "list_all2
     (\<lambda>c k. \<exists>w. first_longest w (filter (\<lambda>d. source_key d = k) (cited docs)) \<and> c = cite w)
     (build_citations docs) (first_seen (map source_key (cited docs)))
   \<and> (\<forall>d \<in> set docs. metadata d ''source'' = None \<longrightarrow> d \<notin> set (cited docs))
   \<and> ((\<forall>d \<in> set docs. typed_meta d) \<longrightarrow>
        list_all2
          (\<lambda>c p. \<exists>w. first_longest w (filter (\<lambda>d. pair_of d = p) (cited docs)) \<and> c = cite w)
          (build_citations docs) (first_seen (map pair_of (cited docs)))
        \<and> map citation_pair (build_citations docs) = first_seen (map pair_of (cited docs))
        \<and> distinct (map citation_pair (build_citations docs)))"
  using build_citations_by_key [of docs] build_citations_by_pair [of docs] no_source_not_cited
  by blast

theorem build_citations_dedup_witness:
  "list_all typed_meta store0
   \<and> map citation_pair (build_citations store0)
       = [(PStr (ascii ''A.pdf''), PInt 0), (PStr (ascii ''B.txt''), PNone)]
   \<and> distinct (map citation_pair (build_citations store0))"
proof -
  have h: "\<forall>d \<in> set store0. typed_meta d"
    by (simp add: store0_def doc_def typed_meta_def)
  note t = build_citations_dedup [of store0, THEN conjunct2, THEN conjunct2, THEN mp, OF h]
  show ?thesis
    using h t pairs_store0 by (simp add: list_all_iff)
qed

text \<open>
  The types matter for the reading by pairs only. With the page of one source stored once
  as the integer 1 and once as the string "1", two pairs share the key \<open>a:1\<close>: the list
  below has three pairs and two keys, and its two citations are those of the keys.
\<close>

lemma mixed_page_types_share_a_key:
  "map citation_pair (build_citations docs_mixed)
     = [(PStr (ascii ''a''), PStr (ascii ''1'')), (PStr (ascii ''b''), PNone)]
   \<and> first_seen (map pair_of (cited docs_mixed))
     = [(PStr (ascii ''a''), PInt 1), (PStr (ascii ''b''), PNone),
        (PStr (ascii ''a''), PStr (ascii ''1''))]
   \<and> first_seen (map source_key (cited docs_mixed)) = [ascii ''a:1'', ascii ''b:none'']"
  by (simp add: docs_mixed_def doc_def build_citations_def collect_step_def source_key_def
        dict_get_def dict_get_default_def make_entry_def del_content_def citation_pair_def
        cited_def has_source_def pair_of_def str_int_1 ascii_def make_snippet_def)

section \<open>Metadata of loaded files\<close>

lemma load_file_units:
  assumes "load lib (choose_loader (lower lib (suffix p))) (path_str p) = Inr docs"
  shows "fst (load_file lib p md)
     = Inr (map (\<lambda>(i, d). enrich (base_metadata lib p md) p i d) (enumerate 0 docs))"
  using assms by (simp add: load_file_def Let_def)

lemma enrich_metadata:
  "metadata (enrich base p i d)
     = (base ++ metadata d)
         (''chunk_id'' \<mapsto> PInt (int i),
          ''source'' \<mapsto> (case metadata d ''original_filename'' of
                            Some v \<Rightarrow> v
                          | None \<Rightarrow> (case base ''original_filename'' of
                                       Some v \<Rightarrow> v | None \<Rightarrow> PStr (name p))))"
  by (auto simp: enrich_def Let_def map_add_def split: option.splits)

lemma enrich_content: "page_content (enrich base p i d) = page_content d"
  by (simp add: enrich_def Let_def split: option.splits)

lemma base_original:
  "base_metadata lib p md ''original_filename''
     = (case md of None \<Rightarrow> None | Some m \<Rightarrow> m ''original_filename'')"
  by (simp add: base_metadata_def split: option.splits)

text \<open>
  C4, as amended. When the loader returns, \<open>load_file\<close> returns one unit per document,
  with the content unchanged and the metadata merged in this order, later entries
  winning: the caller's metadata, the computed \<open>filename\<close> and \<open>file_type\<close>, the
  loader's metadata, then the computed \<open>chunk_id\<close> (the index of the unit) and \<open>source\<close>.
  \<open>source\<close> is the \<open>original_filename\<close> of the merged metadata (the loader's when it has
  one, else the caller's) and the base name of the file when there is none.
\<close>

theorem load_file_precedence:
  assumes "load lib (choose_loader (lower lib (suffix p))) (path_str p) = Inr docs"
  shows "\<exists>units. fst (load_file lib p md) = Inr units \<and> length units = length docs
     \<and> (\<forall>i < length docs.
          page_content (units ! i) = page_content (docs ! i)
          \<and> metadata (units ! i)
              = ((case md of None \<Rightarrow> Map.empty | Some m \<Rightarrow> m)
                   (''filename'' \<mapsto> PStr (name p), ''file_type'' \<mapsto> PStr (lower lib (suffix p)))
                 ++ metadata (docs ! i))
                  (''chunk_id'' \<mapsto> PInt (int i),
                   ''source'' \<mapsto>
                      (case metadata (docs ! i) ''original_filename'' of
                         Some v \<Rightarrow> v
                       | None \<Rightarrow> (case md of
                                    None \<Rightarrow> PStr (name p)
                                  | Some m \<Rightarrow> (case m ''original_filename'' of
                                                 Some v \<Rightarrow> v | None \<Rightarrow> PStr (name p))))))"
proof -
  let ?units = "map (\<lambda>(i, d). enrich (base_metadata lib p md) p i d) (enumerate 0 docs)"
  have u: "fst (load_file lib p md) = Inr ?units"
    using assms by (rule load_file_units)
  have n: "?units ! i = enrich (base_metadata lib p md) p i (docs ! i)" if "i < length docs" for i
    using that by (simp add: nth_enumerate_eq)
  have m: "metadata (?units ! i)
              = ((case md of None \<Rightarrow> Map.empty | Some m \<Rightarrow> m)
                   (''filename'' \<mapsto> PStr (name p), ''file_type'' \<mapsto> PStr (lower lib (suffix p)))
                 ++ metadata (docs ! i))
                  (''chunk_id'' \<mapsto> PInt (int i),
                   ''source'' \<mapsto>
                      (case metadata (docs ! i) ''original_filename'' of
                         Some v \<Rightarrow> v
                       | None \<Rightarrow> (case md of
                                    None \<Rightarrow> PStr (name p)
                                  | Some m \<Rightarrow> (case m ''original_filename'' of
                                                 Some v \<Rightarrow> v | None \<Rightarrow> PStr (name p)))))"
    if "i < length docs" for i
    unfolding n [OF that] enrich_metadata base_original
    by (simp add: base_metadata_def split: option.splits)
  have c: "page_content (?units ! i) = page_content (docs ! i)" if "i < length docs" for i
    unfolding n [OF that] by (rule enrich_content)
  show ?thesis
    using u m c by (intro exI [of _ ?units]) simp
qed

theorem load_file_precedence_witness:
  "load lib0 (choose_loader (lower lib0 (suffix path0))) (path_str path0)
     = Inr [doc ''page one'' [(''source'', PStr (ascii ''/tmp/tmpab12.pdf'')), (''page'', PInt 0)],
            doc ''page two'' [(''source'', PStr (ascii ''/tmp/tmpab12.pdf'')), (''page'', PInt 1),
                              (''filename'', PStr (ascii ''inner.pdf''))]]
   \<and> (\<exists>units. fst (load_file lib0 path0 (Some upload_metadata0)) = Inr units \<and> length units = 2
        \<and> metadata (units ! 1) ''chunk_id'' = Some (PInt 1)
        \<and> metadata (units ! 1) ''source'' = Some (PStr (ascii ''report.pdf''))
        \<and> metadata (units ! 1) ''filename'' = Some (PStr (ascii ''inner.pdf''))
        \<and> metadata (units ! 0) ''filename'' = Some (PStr (ascii ''tmpab12.pdf''))
        \<and> metadata (units ! 1) ''file_size'' = Some (PInt 2048))"
proof -
  let ?docs = "[doc ''page one'' [(''source'', PStr (ascii ''/tmp/tmpab12.pdf'')), (''page'', PInt 0)],
            doc ''page two'' [(''source'', PStr (ascii ''/tmp/tmpab12.pdf'')), (''page'', PInt 1),
                              (''filename'', PStr (ascii ''inner.pdf''))]]"
  have h: "load lib0 (choose_loader (lower lib0 (suffix path0))) (path_str path0) = Inr ?docs"
    by (simp add: lib0_def path0_def)
  obtain units where u: "fst (load_file lib0 path0 (Some upload_metadata0)) = Inr units"
    and l: "length units = length ?docs"
    and m: "\<forall>i < length ?docs.
          page_content (units ! i) = page_content (?docs ! i)
          \<and> metadata (units ! i)
              = ((case Some upload_metadata0 of None \<Rightarrow> Map.empty | Some m \<Rightarrow> m)
                   (''filename'' \<mapsto> PStr (name path0), ''file_type'' \<mapsto> PStr (lower lib0 (suffix path0)))
                 ++ metadata (?docs ! i))
                  (''chunk_id'' \<mapsto> PInt (int i),
                   ''source'' \<mapsto>
                      (case metadata (?docs ! i) ''original_filename'' of
                         Some v \<Rightarrow> v
                       | None \<Rightarrow> (case Some upload_metadata0 of
                                    None \<Rightarrow> PStr (name path0)
                                  | Some m \<Rightarrow> (case m ''original_filename'' of
                                                 Some v \<Rightarrow> v | None \<Rightarrow> PStr (name path0)))))"
    using load_file_precedence [OF h, of "Some upload_metadata0"] by blast
  have m0: "metadata (units ! 0) ''filename'' = Some (PStr (ascii ''tmpab12.pdf''))"
    using m [rule_format, of 0] by (simp add: doc_def upload_metadata0_def path0_def map_add_def)
  have m1: "metadata (units ! 1) ''chunk_id'' = Some (PInt 1)
        \<and> metadata (units ! 1) ''source'' = Some (PStr (ascii ''report.pdf''))
        \<and> metadata (units ! 1) ''filename'' = Some (PStr (ascii ''inner.pdf''))
        \<and> metadata (units ! 1) ''file_size'' = Some (PInt 2048)"
    using m [rule_format, of 1] by (simp add: doc_def upload_metadata0_def path0_def map_add_def)
  show ?thesis
    using h u l m0 m1 by simp
qed

text \<open>
  C4 as stated fails: it places \<open>filename\<close> and \<open>file_type\<close> above the loader's metadata.
  A loader document that carries its own \<open>filename\<close> keeps it: the second unit below is
  named \<open>inner.pdf\<close>, not after the file \<open>tmpab12.pdf\<close>.
\<close>

theorem load_file_filename_counterexample:
  "map (\<lambda>d. metadata d ''filename'')
       (case fst (load_file lib0 path0 (Some upload_metadata0)) of Inl e \<Rightarrow> [] | Inr units \<Rightarrow> units)
     = [Some (PStr (ascii ''tmpab12.pdf'')), Some (PStr (ascii ''inner.pdf''))]
   \<and> name path0 = ascii ''tmpab12.pdf''"
  by (simp add: load_file_def lib0_def path0_def Let_def enrich_def base_metadata_def doc_def
        upload_metadata0_def enumerate_eq_zip)

end
